theory Spec2Isabelle
  imports Main "HOL-Library.Word"
begin

unbundle bit_operations_syntax

section \<open>Values of the host language\<close>

text \<open>
  The decoders read a \<^verbatim>\<open>Uint8Array\<close>. A byte is an 8-bit word; an index read
  \<^verbatim>\<open>buffer[i]\<close> is a number, or \<^verbatim>\<open>undefined\<close> past the end. Every use the
  decoders make of such a read is a comparison, a subtraction or a bitwise AND, where
  \<^verbatim>\<open>undefined\<close> behaves as \<^verbatim>\<open>NaN\<close>: a \<open>number\<close> is an integer or \<open>None\<close>
  (NaN), every ordering and \<^verbatim>\<open>===\<close> with NaN is false, \<^verbatim>\<open>!==\<close> is true.

  A string is the list of its code points.
\<close>

type_synonym byte = "8 word"
type_synonym number = "int option"
type_synonym jsstring = "nat list"

definition at :: "byte list \<Rightarrow> nat \<Rightarrow> number" where
  "at buffer i = (if i < length buffer then Some (uint (buffer ! i)) else None)"

definition js_ge :: "number \<Rightarrow> int \<Rightarrow> bool" where
  "js_ge x c = (case x of None \<Rightarrow> False | Some v \<Rightarrow> c \<le> v)"

definition js_le :: "number \<Rightarrow> int \<Rightarrow> bool" where
  "js_le x c = (case x of None \<Rightarrow> False | Some v \<Rightarrow> v \<le> c)"

definition js_gt :: "number \<Rightarrow> int \<Rightarrow> bool" where
  "js_gt x c = (case x of None \<Rightarrow> False | Some v \<Rightarrow> c < v)"

definition js_lt :: "number \<Rightarrow> int \<Rightarrow> bool" where
  "js_lt x c = (case x of None \<Rightarrow> False | Some v \<Rightarrow> v < c)"

definition js_sub :: "number \<Rightarrow> int \<Rightarrow> number" where
  "js_sub x c = map_option (\<lambda>v. v - c) x"

definition js_add :: "number \<Rightarrow> int \<Rightarrow> number" where
  "js_add x c = map_option (\<lambda>v. v + c) x"

text \<open>\<^verbatim>\<open>!!(x & c)\<close>: the bitwise AND turns NaN into 0.\<close>

definition js_and_set :: "number \<Rightarrow> int \<Rightarrow> bool" where
  "js_and_set x c = (case x of None \<Rightarrow> False | Some v \<Rightarrow> v AND c \<noteq> 0)"

definition str :: "string \<Rightarrow> jsstring" where
  "str s = map of_char s"

definition fromCharCode :: "int \<Rightarrow> jsstring" where
  "fromCharCode c = [nat (c mod 65536)]"

fun digits :: "nat \<Rightarrow> string" where
  "digits n = (if n < 10 then [char_of (48 + n)]
               else digits (n div 10) @ [char_of (48 + n mod 10)])"

declare digits.simps [simp del]

text \<open>The conversion that a template literal \<^verbatim>\<open>`f${fKey}`\<close> applies to a number.\<close>

definition toString :: "number \<Rightarrow> jsstring" where
  "toString x =
     (case x of
        None \<Rightarrow> str ''NaN''
      | Some v \<Rightarrow> if v < 0 then str (CHR ''-'' # digits (nat (- v))) else str (digits (nat v)))"

text \<open>\<^verbatim>\<open>buffer.slice(a, b)\<close> and \<^verbatim>\<open>buffer.slice(a)\<close> for non-negative \<open>a\<close>, \<open>b\<close>.\<close>

definition slice :: "byte list \<Rightarrow> nat \<Rightarrow> nat \<Rightarrow> byte list" where
  "slice buffer a b = take (b - a) (drop a buffer)"

definition slice_from :: "byte list \<Rightarrow> nat \<Rightarrow> byte list" where
  "slice_from buffer a = drop a buffer"

subsection \<open>The platform's \<^verbatim>\<open>TextDecoder\<close>\<close>

text \<open>
  \<^verbatim>\<open>new TextDecoder()\<close> is the UTF-8 decoder of the Encoding standard in replacement
  mode: a malformed sequence gives U+FFFD and the offending byte is read again, and a
  leading U+FEFF of the output is dropped. The state is the standard's: code point,
  bytes seen, bytes needed, lower and upper boundary.
\<close>

record utf8_state =
  code_point :: nat
  bytes_seen :: nat
  bytes_needed :: nat
  lower_boundary :: nat
  upper_boundary :: nat

definition utf8_initial :: utf8_state where
  "utf8_initial =
     \<lparr>code_point = 0, bytes_seen = 0, bytes_needed = 0,
      lower_boundary = 0x80, upper_boundary = 0xBF\<rparr>"

text \<open>A byte read while no bytes are needed: the output and the next state.\<close>

definition utf8_lead :: "nat \<Rightarrow> nat list \<times> utf8_state" where
  "utf8_lead b =
     (if b \<le> 0x7F then ([b], utf8_initial)
      else if 0xC2 \<le> b \<and> b \<le> 0xDF
        then ([], utf8_initial\<lparr>bytes_needed := 1, code_point := b mod 32\<rparr>)
      else if 0xE0 \<le> b \<and> b \<le> 0xEF
        then ([], utf8_initial\<lparr>lower_boundary := (if b = 0xE0 then 0xA0 else 0x80),
                               upper_boundary := (if b = 0xED then 0x9F else 0xBF),
                               bytes_needed := 2, code_point := b mod 16\<rparr>)
      else if 0xF0 \<le> b \<and> b \<le> 0xF4
        then ([], utf8_initial\<lparr>lower_boundary := (if b = 0xF0 then 0x90 else 0x80),
                               upper_boundary := (if b = 0xF4 then 0x8F else 0xBF),
                               bytes_needed := 3, code_point := b mod 8\<rparr>)
      else ([0xFFFD], utf8_initial))"

fun utf8_decoder :: "utf8_state \<Rightarrow> nat list \<Rightarrow> nat list" where
  "utf8_decoder s [] = (if bytes_needed s \<noteq> 0 then [0xFFFD] else [])"
| "utf8_decoder s (b # bs) =
     (if bytes_needed s = 0
        then (case utf8_lead b of (out, s') \<Rightarrow> out @ utf8_decoder s' bs)
      else if b < lower_boundary s \<or> upper_boundary s < b
        then 0xFFFD # (case utf8_lead b of (out, s') \<Rightarrow> out @ utf8_decoder s' bs)
      else
        (let cp = code_point s * 64 + b mod 64
         in if bytes_seen s + 1 \<noteq> bytes_needed s
              then utf8_decoder (s\<lparr>lower_boundary := 0x80, upper_boundary := 0xBF,
                                   code_point := cp, bytes_seen := bytes_seen s + 1\<rparr>) bs
            else cp # utf8_decoder utf8_initial bs))"

definition textDecoder_decode :: "byte list \<Rightarrow> jsstring" where
  "textDecoder_decode bytes =
     (case utf8_decoder utf8_initial (map unat bytes) of
        [] \<Rightarrow> []
      | c # cs \<Rightarrow> if c = 0xFEFF then cs else c # cs)"

text \<open>
  \<^verbatim>\<open>String.prototype.toUpperCase\<close> and \<^verbatim>\<open>toLowerCase\<close> are the platform's Unicode
  case mappings. They are parameters of the model; \<open>ascii_case\<close> is the instance that
  maps the ASCII letters and nothing else.
\<close>

record unicode =
  toUpperCase :: "jsstring \<Rightarrow> jsstring"
  toLowerCase :: "jsstring \<Rightarrow> jsstring"

definition ascii_case :: unicode where
  "ascii_case =
     \<lparr>toUpperCase = map (\<lambda>c. if 97 \<le> c \<and> c \<le> 122 then c - 32 else c),
      toLowerCase = map (\<lambda>c. if 65 \<le> c \<and> c \<le> 90 then c + 32 else c)\<rparr>"

section \<open>Byte classification table\<close>

text \<open>The values of the \<^verbatim>\<open>Char\<close> enumeration, as in \<^verbatim>\<open>src/decode.ts\<close>.\<close>

abbreviation (input) Char_NULL :: int where "Char_NULL \<equiv> 0"
abbreviation (input) Char_Backspace :: int where "Char_Backspace \<equiv> 8"
abbreviation (input) Char_Tab :: int where "Char_Tab \<equiv> 9"
abbreviation (input) Char_LF :: int where "Char_LF \<equiv> 10"
abbreviation (input) Char_CR :: int where "Char_CR \<equiv> 13"
abbreviation (input) Char_CANCEL :: int where "Char_CANCEL \<equiv> 24"
abbreviation (input) Char_ESC :: int where "Char_ESC \<equiv> 27"
abbreviation (input) Char_SPACE :: int where "Char_SPACE \<equiv> 32"
abbreviation (input) Char_excl :: int where "Char_excl \<equiv> 33"
abbreviation (input) Char_semicolon :: int where "Char_semicolon \<equiv> 59"
abbreviation (input) Char_0n :: int where "Char_0n \<equiv> 48"
abbreviation (input) Char_1n :: int where "Char_1n \<equiv> 49"
abbreviation (input) Char_2n :: int where "Char_2n \<equiv> 50"
abbreviation (input) Char_3n :: int where "Char_3n \<equiv> 51"
abbreviation (input) Char_5n :: int where "Char_5n \<equiv> 53"
abbreviation (input) Char_6n :: int where "Char_6n \<equiv> 54"
abbreviation (input) Char_at :: int where "Char_at \<equiv> 64"
abbreviation (input) Char_A :: int where "Char_A \<equiv> 65"
abbreviation (input) Char_B :: int where "Char_B \<equiv> 66"
abbreviation (input) Char_C :: int where "Char_C \<equiv> 67"
abbreviation (input) Char_D :: int where "Char_D \<equiv> 68"
abbreviation (input) Char_F :: int where "Char_F \<equiv> 70"
abbreviation (input) Char_H :: int where "Char_H \<equiv> 72"
abbreviation (input) Char_M :: int where "Char_M \<equiv> 77"
abbreviation (input) Char_O :: int where "Char_O \<equiv> 79"
abbreviation (input) Char_Z :: int where "Char_Z \<equiv> 90"
abbreviation (input) Char_lbracket :: int where "Char_lbracket \<equiv> 91"
abbreviation (input) Char_a :: int where "Char_a \<equiv> 97"
abbreviation (input) Char_s :: int where "Char_s \<equiv> 115"
abbreviation (input) Char_z :: int where "Char_z \<equiv> 122"
abbreviation (input) Char_tilde :: int where "Char_tilde \<equiv> 126"
abbreviation (input) Char_DEL :: int where "Char_DEL \<equiv> 127"

section \<open>Key events\<close>

record KeyEvent =
  key :: jsstring
  shift :: bool
  ctrl :: bool
  alt :: bool
  meta :: bool

text \<open>
  Modelled from the spec: \<^verbatim>\<open>keyEvent\<close> of \<^verbatim>\<open>shared.ts\<close>, which is not among the
  sources. It builds the one-element event list \<^verbatim>\<open>[KeyEvent]\<close> from a key and the
  modifier options, each of which is false when the caller leaves it out (spec 3:
  "independent booleans, default false"). The options are positional here, in the
  order shift, ctrl, alt, meta.
\<close>

definition keyEvent :: "jsstring \<Rightarrow> bool \<Rightarrow> bool \<Rightarrow> bool \<Rightarrow> bool \<Rightarrow> KeyEvent list" where
  "keyEvent k sh c a m = [\<lparr>key = k, shift = sh, ctrl = c, alt = a, meta = m\<rparr>]"

section \<open>The decoders of the xterm keyboard module\<close>

text \<open>
  Each decoder ends in one of four return statements. The model returns the statement
  reached, with its arguments evaluated; \<open>decodeBuffer\<close> below executes it.
  \<^item> \<open>Null\<close>: \<^verbatim>\<open>return null\<close>;
  \<^item> \<open>Event e\<close>: \<^verbatim>\<open>return e\<close>;
  \<^item> \<open>MaybeMultiple e n\<close>: \<^verbatim>\<open>return maybeMultiple(e, buffer, n)\<close>;
  \<^item> \<open>PushDecoded e n\<close>:
    \<^verbatim>\<open>e.push(...decodeBuffer(buffer.slice(n))); return e\<close>.
\<close>

datatype returned =
    Null
  | Event "KeyEvent list"
  | MaybeMultiple "KeyEvent list" nat
  | PushDecoded "KeyEvent list" nat

text \<open>
  \<open>decodeXTermUtf8Key\<close> is given in three parts: \<open>decodeUtf8Character\<close> is the
  \<^verbatim>\<open>else\<close> branch of the \<^verbatim>\<open>default\<close> case (the multi-byte character),
  \<open>classifyCharByte\<close> is everything after the check that \<^verbatim>\<open>charByte\<close> is defined,
  and \<open>decodeXTermUtf8Key\<close> itself computes the legacy prefix and reads the byte.
\<close>

definition decodeUtf8Character ::
    "unicode \<Rightarrow> byte list \<Rightarrow> bool \<Rightarrow> bool \<Rightarrow> nat \<Rightarrow> int \<Rightarrow> returned" where
  "decodeUtf8Character U buffer = (\<lambda>meta alt startPos charByte.
     (let codePoints =
            (if charByte AND 0xf0 = 0xf0 then 4
             else if charByte AND 0xe0 = 0xe0 then 3
             else if charByte AND 0xc0 = 0xc0 then 2 else (1::nat))
      in if length buffer < codePoints then Null
         else if length buffer > startPos + codePoints
           then (let character =
                       textDecoder_decode (slice buffer startPos (startPos + codePoints));
                     shift = (toUpperCase U character = character
                              \<and> toLowerCase U character \<noteq> character)
                 in PushDecoded (keyEvent character shift False alt meta)
                      (startPos + codePoints))
         else (let character = textDecoder_decode buffer;
                   shift = (toUpperCase U character = character
                            \<and> toLowerCase U character \<noteq> character)
               in Event (keyEvent character shift False alt meta))))"

definition classifyCharByte ::
    "unicode \<Rightarrow> byte list \<Rightarrow> bool \<Rightarrow> bool \<Rightarrow> nat \<Rightarrow> int \<Rightarrow> returned" where
  "classifyCharByte U buffer = (\<lambda>meta alt startPos charByte.
     (if (charByte \<ge> Char_excl \<and> charByte \<le> Char_at)
         \<or> (charByte \<ge> Char_lbracket \<and> charByte \<le> Char_tilde)
        then MaybeMultiple (keyEvent (fromCharCode charByte) False False alt meta)
               (startPos + 1)
      else if charByte \<ge> Char_A \<and> charByte \<le> Char_Z
        then MaybeMultiple (keyEvent (fromCharCode charByte) True False alt meta)
               (startPos + 1)
      else if charByte = Char_NULL
        then MaybeMultiple (keyEvent (str ''space'') False True alt meta) (startPos + 1)
      else if charByte = Char_SPACE
        then MaybeMultiple (keyEvent (str ''space'') False False alt meta) (startPos + 1)
      else if charByte = Char_LF
        then MaybeMultiple (keyEvent (str ''j'') False True alt meta) (startPos + 1)
      else if charByte = Char_CR
        then MaybeMultiple (keyEvent (str ''return'') False False alt meta) (startPos + 1)
      else if charByte = Char_ESC
        then MaybeMultiple (keyEvent (str ''escape'') False False alt meta) (startPos + 1)
      else if charByte = Char_Backspace \<or> charByte = Char_DEL
        then MaybeMultiple (keyEvent (str ''backspace'') False False alt meta) (startPos + 1)
      else if charByte = Char_Tab
        then MaybeMultiple (keyEvent (str ''tab'') False False alt meta) (startPos + 1)
      else if charByte \<ge> Char_a - 96 \<and> charByte \<le> Char_z - 96
        then MaybeMultiple (keyEvent (fromCharCode (charByte + 96)) False True alt meta)
               (startPos + 1)
      else decodeUtf8Character U buffer meta alt startPos charByte))"

definition decodeXTermUtf8Key :: "unicode \<Rightarrow> byte list \<Rightarrow> returned" where
  "decodeXTermUtf8Key U buffer =
     (let meta = (at buffer 0 = Some Char_CANCEL \<and> at buffer 1 = Some Char_at
                  \<and> at buffer 2 = Some Char_s);
          alt = ((meta \<and> at buffer 3 = Some Char_ESC)
                 \<or> (length buffer > 1 \<and> at buffer 0 = Some Char_ESC));
          startPos = (if alt then 1 else 0) + (if meta then 3 else 0)
      in case at buffer startPos of
           None \<Rightarrow> Null
         | Some charByte \<Rightarrow> classifyCharByte U buffer meta alt startPos charByte)"

definition modifierKeypress :: "jsstring \<Rightarrow> number \<Rightarrow> KeyEvent list" where
  "modifierKeypress k modifiers =
     (let modifiers = js_sub modifiers (Char_0n + 1);
          meta = (modifiers = Some 0 \<or> js_and_set modifiers 8);
          shift = js_and_set modifiers 1;
          alt = js_and_set modifiers 2;
          ctrl = js_and_set modifiers 4
      in keyEvent k shift ctrl alt meta)"

definition decodeXTermSS3FunctionKeys :: "byte list \<Rightarrow> returned" where
  "decodeXTermSS3FunctionKeys buffer =
     (if at buffer 2 = Some Char_M
        then MaybeMultiple (keyEvent (str ''return'') True False False False) 3
      else if js_gt (at buffer 2) Char_O
        then (let fKey = js_sub (at buffer 2) Char_O
              in MaybeMultiple (keyEvent (str ''f'' @ toString fKey) False False False False) 3)
      else if length buffer < 4 then Null
      else (let fKey = js_sub (at buffer 3) Char_O
            in MaybeMultiple (modifierKeypress (str ''f'' @ toString fKey) (at buffer 2)) 4))"

text \<open>
  \<open>decodeXTermCSIFunctionKeys\<close> tries its branches in the order of the source. The
  bodies of three of them are given first: \<open>csiCursorKeys\<close> is the body of
  "Home | End | Shift+Tab | Arrows", \<open>csiEditingKeys\<close> the body of
  "Insert | Delete | PageUp | PageDown", and \<open>csiNumberedFunctionKeys\<close> the code from
  the F5 to F12 table to the end of the function.
\<close>

definition csiCursorKeys :: "byte list \<Rightarrow> returned" where
  "csiCursorKeys buffer =
     (let hasModifiers = (at buffer 3 = Some Char_semicolon);
          selector = at buffer (if hasModifiers then 5 else 2);
          finish = (\<lambda>key. if hasModifiers
                              then MaybeMultiple (modifierKeypress key (at buffer 4)) 6
                            else MaybeMultiple (keyEvent key False False False False) 3)
      in if selector = Some Char_A then finish (str ''up'')
         else if selector = Some Char_B then finish (str ''down'')
         else if selector = Some Char_C then finish (str ''right'')
         else if selector = Some Char_D then finish (str ''left'')
         else if selector = Some Char_F then finish (str ''end'')
         else if selector = Some Char_H then finish (str ''home'')
         else if selector = Some Char_Z
           then MaybeMultiple (keyEvent (str ''tab'') True False False False) 3
         else Null)"

definition csiEditingKeys :: "byte list \<Rightarrow> returned" where
  "csiEditingKeys buffer =
     (let finish = (\<lambda>key. if at buffer 3 = Some Char_semicolon
                              then MaybeMultiple (modifierKeypress key (at buffer 4)) 6
                            else MaybeMultiple (keyEvent key False False False False) 4)
      in if at buffer 2 = Some Char_2n then finish (str ''insert'')
         else if at buffer 2 = Some Char_3n then finish (str ''delete'')
         else if at buffer 2 = Some Char_5n then finish (str ''pageup'')
         else if at buffer 2 = Some Char_6n then finish (str ''pagedown'')
         else Null)"

definition csiNumberedFunctionKeys :: "byte list \<Rightarrow> returned" where
  "csiNumberedFunctionKeys buffer =
     (let finish = (\<lambda>fKey.
            if at buffer 4 = Some Char_semicolon
              then (if at buffer 6 \<noteq> Some Char_tilde then Null
                    else MaybeMultiple
                           (modifierKeypress (str ''f'' @ toString fKey) (at buffer 5)) 7)
            else if at buffer 4 \<noteq> Some Char_tilde then Null
            else MaybeMultiple (keyEvent (str ''f'' @ toString fKey) False False False False) 5)
      in if at buffer 2 = Some Char_1n
           then (let fKey = js_sub (at buffer 3) Char_0n
                 in finish (if js_gt fKey 5 then js_sub fKey 1 else fKey))
         else if at buffer 2 = Some Char_2n
           then (let fKey = js_add (js_sub (at buffer 3) Char_0n) 9
                 in finish (if js_gt fKey 10 then js_sub fKey 1 else fKey))
         else Null)"

definition decodeXTermCSIFunctionKeys :: "byte list \<Rightarrow> returned" where
  "decodeXTermCSIFunctionKeys buffer =
     (if (at buffer 2 = Some Char_Z \<or> (js_ge (at buffer 2) Char_A \<and> js_le (at buffer 2) Char_H))
         \<or> (at buffer 3 = Some Char_semicolon
             \<and> (js_ge (at buffer 5) Char_A \<and> js_le (at buffer 5) Char_H))
        then csiCursorKeys buffer
      else if at buffer 3 = Some Char_tilde
              \<or> (at buffer 3 = Some Char_semicolon \<and> at buffer 5 = Some Char_tilde)
        then csiEditingKeys buffer
      else if at buffer 3 \<noteq> Some Char_semicolon
              \<and> js_gt (js_sub (at buffer 2) Char_O) 0 \<and> js_lt (js_sub (at buffer 2) Char_O) 5
        then (let fKey = js_sub (at buffer 2) Char_O
              in MaybeMultiple (keyEvent (str ''f'' @ toString fKey) False False False False) 3)
      else if length buffer < 5 then Null
      else (let fKey = js_sub (at buffer 5) Char_O
            in if js_gt fKey 0 \<and> js_lt fKey 5
                 then MaybeMultiple
                        (modifierKeypress (str ''f'' @ toString fKey) (at buffer 4)) 6
               else csiNumberedFunctionKeys buffer))"

section \<open>The earlier resolver in \<^verbatim>\<open>src/decode.ts\<close>\<close>

text \<open>
  \<^verbatim>\<open>src/decode.ts\<close> holds an earlier, monolithic decoder with its own
  \<^verbatim>\<open>modifierKeypress\<close>, which returns a single \<^verbatim>\<open>KeyPress\<close> (an object with the
  fields of a key event) and sets meta only when the number is 0. The keyboard module
  does not call it; it is recorded here for comparison.
\<close>

definition keyPress :: "jsstring \<Rightarrow> bool \<Rightarrow> bool \<Rightarrow> bool \<Rightarrow> bool \<Rightarrow> KeyEvent" where
  "keyPress k sh c m a = \<lparr>key = k, shift = sh, ctrl = c, alt = a, meta = m\<rparr>"

definition modifierKeypress_decode_ts :: "jsstring \<Rightarrow> number \<Rightarrow> KeyEvent" where
  "modifierKeypress_decode_ts k modifiers =
     (let modifiers = js_sub modifiers 49;
          meta = (modifiers = Some 0);
          shift = js_and_set modifiers 1;
          alt = js_and_set modifiers 2;
          ctrl = js_and_set modifiers 4
      in keyPress k shift ctrl meta alt)"

section \<open>Dispatcher and multi-event splitter\<close>

text \<open>
  The keyboard module imports \<^verbatim>\<open>decodeBuffer\<close> and \<^verbatim>\<open>maybeMultiple\<close> from a
  \<^verbatim>\<open>decode.ts\<close> that returns event lists and exports both. The \<^verbatim>\<open>src/decode.ts\<close>
  among the sources is an earlier, monolithic decoder: it returns a single
  \<^verbatim>\<open>KeyPress\<close> object, never \<^verbatim>\<open>null\<close>, and has no \<^verbatim>\<open>maybeMultiple\<close>, so it
  cannot be what the module calls. The two functions are therefore modelled from the
  specification.

  A call returns \<^verbatim>\<open>null\<close> (\<open>Inr None\<close>), a list of events (\<open>Inr (Some es)\<close>), or
  it throws (\<open>Inl\<close>): spreading \<^verbatim>\<open>null\<close> into \<^verbatim>\<open>push\<close> is a \<^verbatim>\<open>TypeError\<close>.
\<close>

datatype error = TypeError

type_synonym decoded = "error + KeyEvent list option"

text \<open>
  Modelled from the spec: the routing of the dispatcher \<^verbatim>\<open>decodeBuffer\<close> (spec 4.7),
  which is not among the sources: "if \<^verbatim>\<open>buffer.length > 1\<close> and \<^verbatim>\<open>buffer[0]=ESC\<close>,
  \<^verbatim>\<open>buffer[1]='['\<close>: CSI decoder; if \<^verbatim>\<open>buffer[0]=ESC\<close>, \<^verbatim>\<open>buffer[1]='O'\<close>: SS3
  decoder; otherwise: Legacy/UTF-8 decoder".
\<close>

definition dispatch :: "unicode \<Rightarrow> byte list \<Rightarrow> returned" where
  "dispatch U buffer =
     (if length buffer > 1 \<and> at buffer 0 = Some Char_ESC \<and> at buffer 1 = Some Char_lbracket
        then decodeXTermCSIFunctionKeys buffer
      else if at buffer 0 = Some Char_ESC \<and> at buffer 1 = Some Char_O
        then decodeXTermSS3FunctionKeys buffer
      else decodeXTermUtf8Key U buffer)"

subsection \<open>Consumed lengths\<close>

text \<open>
  Every consumed length that a decoder returns lies within the buffer; the recursion of
  the dispatcher below terminates by it.
\<close>

lemma at_SomeD: "at buffer i = Some v \<Longrightarrow> i < length buffer"
  by (simp add: at_def split: if_splits)

lemma js_geD: "js_ge (at buffer i) c \<Longrightarrow> i < length buffer"
  by (simp add: js_ge_def at_def split: if_splits)

lemma js_gtD: "js_gt (at buffer i) c \<Longrightarrow> i < length buffer"
  by (simp add: js_gt_def at_def split: if_splits)

lemma js_gt_subD: "js_gt (js_sub (at buffer i) d) c \<Longrightarrow> i < length buffer"
  by (simp add: js_gt_def js_sub_def at_def split: if_splits)

lemma classify_consumed:
  "classifyCharByte U buffer m a startPos c = MaybeMultiple e n \<Longrightarrow> n = startPos + 1"
  by (simp add: classifyCharByte_def decodeUtf8Character_def Let_def split: if_splits)

lemma classify_pushed:
  "classifyCharByte U buffer m a startPos c = PushDecoded e n
   \<Longrightarrow> startPos < n \<and> n < length buffer"
  by (simp add: classifyCharByte_def decodeUtf8Character_def Let_def split: if_splits)

lemma utf8_consumed:
  "decodeXTermUtf8Key U buffer = MaybeMultiple e n \<Longrightarrow> 1 \<le> n \<and> n \<le> length buffer"
  unfolding decodeXTermUtf8Key_def Let_def
  by (auto split: option.splits dest!: at_SomeD classify_consumed)

lemma utf8_pushed:
  "decodeXTermUtf8Key U buffer = PushDecoded e n \<Longrightarrow> 1 \<le> n \<and> n < length buffer"
  unfolding decodeXTermUtf8Key_def Let_def
  by (auto split: option.splits dest!: classify_pushed)

lemma ss3_consumed:
  "decodeXTermSS3FunctionKeys buffer = MaybeMultiple e n \<Longrightarrow> 1 \<le> n \<and> n \<le> length buffer"
  by (auto simp: decodeXTermSS3FunctionKeys_def Let_def split: if_splits
           dest!: at_SomeD js_gtD)

lemma ss3_shape:
  "decodeXTermSS3FunctionKeys buffer = Null
   \<or> (\<exists>e n. decodeXTermSS3FunctionKeys buffer = MaybeMultiple e n)"
  unfolding decodeXTermSS3FunctionKeys_def Let_def by simp

lemma cursor_consumed:
  "csiCursorKeys buffer = MaybeMultiple e n \<Longrightarrow> 1 \<le> n \<and> n \<le> length buffer"
  unfolding csiCursorKeys_def Let_def
  by (auto split: if_splits dest!: at_SomeD)

lemma editing_consumed:
  "at buffer 3 = Some Char_tilde
     \<or> (at buffer 3 = Some Char_semicolon \<and> at buffer 5 = Some Char_tilde)
   \<Longrightarrow> csiEditingKeys buffer = MaybeMultiple e n \<Longrightarrow> 1 \<le> n \<and> n \<le> length buffer"
  unfolding csiEditingKeys_def Let_def
  by (auto split: if_splits dest!: at_SomeD)

lemma numbered_consumed:
  "csiNumberedFunctionKeys buffer = MaybeMultiple e n \<Longrightarrow> 1 \<le> n \<and> n \<le> length buffer"
  unfolding csiNumberedFunctionKeys_def Let_def
  by (auto split: if_splits dest!: at_SomeD)

lemma csi_consumed:
  assumes "decodeXTermCSIFunctionKeys buffer = MaybeMultiple e n"
  shows "1 \<le> n \<and> n \<le> length buffer"
proof -
  let ?cursor =
    "(at buffer 2 = Some Char_Z \<or> (js_ge (at buffer 2) Char_A \<and> js_le (at buffer 2) Char_H))
     \<or> (at buffer 3 = Some Char_semicolon
         \<and> (js_ge (at buffer 5) Char_A \<and> js_le (at buffer 5) Char_H))"
  let ?editing =
    "at buffer 3 = Some Char_tilde
     \<or> (at buffer 3 = Some Char_semicolon \<and> at buffer 5 = Some Char_tilde)"
  let ?plain =
    "at buffer 3 \<noteq> Some Char_semicolon
     \<and> js_gt (js_sub (at buffer 2) Char_O) 0 \<and> js_lt (js_sub (at buffer 2) Char_O) 5"
  let ?modified =
    "js_gt (js_sub (at buffer 5) Char_O) 0 \<and> js_lt (js_sub (at buffer 5) Char_O) 5"
  show ?thesis
  proof (cases ?cursor)
    case True
    then have "decodeXTermCSIFunctionKeys buffer = csiCursorKeys buffer"
      unfolding decodeXTermCSIFunctionKeys_def by simp
    with assms have "csiCursorKeys buffer = MaybeMultiple e n" by simp
    then show ?thesis by (rule cursor_consumed)
  next
    case no_cursor: False
    show ?thesis
    proof (cases ?editing)
      case True
      with no_cursor have "decodeXTermCSIFunctionKeys buffer = csiEditingKeys buffer"
        unfolding decodeXTermCSIFunctionKeys_def by auto
      with assms have "csiEditingKeys buffer = MaybeMultiple e n" by simp
      with True show ?thesis by (rule editing_consumed)
    next
      case no_editing: False
      show ?thesis
      proof (cases ?plain)
        case True
        with no_cursor no_editing have "n = 3"
          using assms unfolding decodeXTermCSIFunctionKeys_def Let_def
          by (auto split: if_splits)
        moreover from True have "2 < length buffer" using js_gt_subD by blast
        ultimately show ?thesis by simp
      next
        case no_plain: False
        show ?thesis
        proof (cases ?modified)
          case True
          with no_cursor no_editing no_plain have "n = 6"
            using assms unfolding decodeXTermCSIFunctionKeys_def Let_def
            by (auto split: if_splits)
          moreover from True have "5 < length buffer" using js_gt_subD by blast
          ultimately show ?thesis by simp
        next
          case False
          with no_cursor no_editing no_plain
          have "csiNumberedFunctionKeys buffer = MaybeMultiple e n"
            using assms unfolding decodeXTermCSIFunctionKeys_def Let_def
            by (auto split: if_splits)
          then show ?thesis by (rule numbered_consumed)
        qed
      qed
    qed
  qed
qed

lemma cursor_shape:
  "csiCursorKeys buffer = Null \<or> (\<exists>e n. csiCursorKeys buffer = MaybeMultiple e n)"
  unfolding csiCursorKeys_def Let_def by simp

lemma editing_shape:
  "csiEditingKeys buffer = Null \<or> (\<exists>e n. csiEditingKeys buffer = MaybeMultiple e n)"
  unfolding csiEditingKeys_def Let_def by simp

lemma numbered_shape:
  "csiNumberedFunctionKeys buffer = Null
   \<or> (\<exists>e n. csiNumberedFunctionKeys buffer = MaybeMultiple e n)"
  unfolding csiNumberedFunctionKeys_def Let_def by simp

lemma csi_shape:
  "decodeXTermCSIFunctionKeys buffer = Null
   \<or> (\<exists>e n. decodeXTermCSIFunctionKeys buffer = MaybeMultiple e n)"
  unfolding decodeXTermCSIFunctionKeys_def Let_def
  using cursor_shape [of buffer] editing_shape [of buffer] numbered_shape [of buffer]
  by simp

lemma dispatch_consumed:
  "dispatch U buffer = MaybeMultiple e n \<Longrightarrow> 1 \<le> n \<and> n \<le> length buffer"
  unfolding dispatch_def
  by (auto split: if_splits dest: csi_consumed ss3_consumed utf8_consumed)

lemma dispatch_pushed:
  "dispatch U buffer = PushDecoded e n \<Longrightarrow> 1 \<le> n \<and> n < length buffer"
  unfolding dispatch_def
  using csi_shape [of buffer] ss3_shape [of buffer]
  by (auto split: if_splits dest: utf8_pushed)

text \<open>
  Modelled from the spec: \<^verbatim>\<open>decodeBuffer\<close> (spec 4.7) and \<^verbatim>\<open>maybeMultiple\<close>
  (spec 4.6), which are not among the sources. \<open>decodeBuffer\<close> routes the buffer and
  executes the return statement that the chosen decoder reaches. \<open>maybeMultiple\<close>: "If
  \<^verbatim>\<open>consumed == buffer.length\<close>, return the single event. Otherwise, recursively invoke
  the Dispatcher on the sub-buffer starting at \<^verbatim>\<open>consumed\<close>; if that yields Incomplete
  or Unrecognized, return just the primary event; otherwise return the primary event
  followed, in order, by the recursively decoded events." An exception thrown while
  decoding the tail propagates.
\<close>

function decodeBuffer :: "unicode \<Rightarrow> byte list \<Rightarrow> decoded"
  and maybeMultiple :: "unicode \<Rightarrow> KeyEvent list \<Rightarrow> byte list \<Rightarrow> nat \<Rightarrow> decoded"
where
  "decodeBuffer U buffer =
     (case dispatch U buffer of
        Null \<Rightarrow> Inr None
      | Event event \<Rightarrow> Inr (Some event)
      | MaybeMultiple event n \<Rightarrow> maybeMultiple U event buffer n
      | PushDecoded event n \<Rightarrow>
          (case decodeBuffer U (slice_from buffer n) of
             Inl err \<Rightarrow> Inl err
           | Inr None \<Rightarrow> Inl TypeError
           | Inr (Some rest) \<Rightarrow> Inr (Some (event @ rest))))"
| "maybeMultiple U event buffer n =
     (if n = length buffer then Inr (Some event)
      else (case decodeBuffer U (slice_from buffer n) of
              Inl err \<Rightarrow> Inl err
            | Inr None \<Rightarrow> Inr (Some event)
            | Inr (Some rest) \<Rightarrow> Inr (Some (event @ rest))))"
  by pat_completeness auto
termination
proof (relation "measure (\<lambda>x. case x of
                    Inl (U, buffer) \<Rightarrow> 2 * length buffer + 1
                  | Inr (U, event, buffer, n) \<Rightarrow> 2 * length (slice_from buffer n) + 2)")
  show "wf (measure (\<lambda>x. case x of
                    Inl (U, buffer) \<Rightarrow> 2 * length buffer + 1
                  | Inr (U, event, buffer, n) \<Rightarrow> 2 * length (slice_from buffer n) + 2))"
    by simp
next
  fix U buffer event n
  assume "dispatch U buffer = MaybeMultiple event n"
  then have "1 \<le> n \<and> n \<le> length buffer" by (rule dispatch_consumed)
  then have "2 * (length buffer - n) + 2 < 2 * length buffer + 1" by arith
  then show "(Inr (U, event, buffer, n), Inl (U, buffer))
        \<in> measure (\<lambda>x. case x of
                    Inl (U, buffer) \<Rightarrow> 2 * length buffer + 1
                  | Inr (U, event, buffer, n) \<Rightarrow> 2 * length (slice_from buffer n) + 2)"
    by (simp add: slice_from_def)
next
  fix U buffer event n
  assume "dispatch U buffer = PushDecoded event n"
  then have "1 \<le> n \<and> n < length buffer" by (rule dispatch_pushed)
  then have "2 * (length buffer - n) + 1 < 2 * length buffer + 1" by arith
  then show "(Inl (U, slice_from buffer n), Inl (U, buffer))
        \<in> measure (\<lambda>x. case x of
                    Inl (U, buffer) \<Rightarrow> 2 * length buffer + 1
                  | Inr (U, event, buffer, n) \<Rightarrow> 2 * length (slice_from buffer n) + 2)"
    by (simp add: slice_from_def)
next
  fix U :: unicode and event :: "KeyEvent list" and buffer :: "byte list" and n :: nat
  show "(Inl (U, slice_from buffer n), Inr (U, event, buffer, n))
        \<in> measure (\<lambda>x. case x of
                    Inl (U, buffer) \<Rightarrow> 2 * length buffer + 1
                  | Inr (U, event, buffer, n) \<Rightarrow> 2 * length (slice_from buffer n) + 2)"
    by simp
qed

declare decodeBuffer.simps [simp del] maybeMultiple.simps [simp del]

section \<open>Evaluation and branch lemmas\<close>

lemmas eval_defs =
  dispatch_def decodeXTermUtf8Key_def classifyCharByte_def decodeUtf8Character_def
  decodeXTermSS3FunctionKeys_def decodeXTermCSIFunctionKeys_def csiCursorKeys_def
  csiEditingKeys_def csiNumberedFunctionKeys_def modifierKeypress_def keyEvent_def at_def
  js_ge_def js_le_def js_gt_def js_lt_def js_sub_def js_add_def js_and_set_def toString_def
  fromCharCode_def str_def slice_def slice_from_def Let_def

lemmas utf8_defs = textDecoder_decode_def utf8_lead_def utf8_initial_def

lemma and_power_of_two: "(v::int) AND 2 ^ n \<noteq> 0 \<longleftrightarrow> bit v n"
  using and_exp_eq_0_iff_not_bit [of v n] by simp

lemma csi_modified_cursor:
  assumes "at buffer 3 = Some Char_semicolon" and "at buffer 5 = Some t"
    and "(t, k) \<in> {(Char_A, ''up''), (Char_B, ''down''), (Char_C, ''right''),
                   (Char_D, ''left''), (Char_F, ''end''), (Char_H, ''home'')}"
  shows "decodeXTermCSIFunctionKeys buffer =
           MaybeMultiple (modifierKeypress (str k) (at buffer 4)) 6"
proof -
  from assms have "65 \<le> t \<and> t \<le> 72" by auto
  with assms have "decodeXTermCSIFunctionKeys buffer = csiCursorKeys buffer"
    unfolding decodeXTermCSIFunctionKeys_def by (simp add: js_ge_def js_le_def)
  moreover from assms
  have "csiCursorKeys buffer = MaybeMultiple (modifierKeypress (str k) (at buffer 4)) 6"
    unfolding csiCursorKeys_def Let_def by auto
  ultimately show ?thesis by simp
qed

lemma csi_numbered:
  assumes len: "at buffer 2 = Some x" "at buffer 3 = Some d" "at buffer 4 = Some Char_tilde"
    and d: "d \<noteq> Char_semicolon" "d \<noteq> Char_tilde"
    and not_cursor: "x \<noteq> Char_Z" "\<not> (Char_A \<le> x \<and> x \<le> Char_H)"
    and not_plain: "\<not> (80 \<le> x \<and> x \<le> 83)"
    and not_modified: "\<not> (js_ge (at buffer 5) 80 \<and> js_le (at buffer 5) 83)"
  shows "decodeXTermCSIFunctionKeys buffer =
     (if x = Char_1n
        then MaybeMultiple
               (keyEvent (str ''f'' @ toString (Some (if d - 48 > 5 then d - 48 - 1 else d - 48)))
                  False False False False) 5
      else if x = Char_2n
        then MaybeMultiple
               (keyEvent (str ''f'' @ toString (Some (if d - 48 + 9 > 10 then d - 48 + 9 - 1
                                                       else d - 48 + 9)))
                  False False False False) 5
      else Null)"
proof -
  from len have "4 < length buffer" by (simp add: at_SomeD)
  moreover
  have "\<not> (js_gt (js_sub (at buffer 5) Char_O) 0 \<and> js_lt (js_sub (at buffer 5) Char_O) 5)"
    using not_modified
    by (auto simp: js_gt_def js_lt_def js_ge_def js_le_def js_sub_def split: option.splits)
  ultimately have "decodeXTermCSIFunctionKeys buffer = csiNumberedFunctionKeys buffer"
    using len d not_cursor not_plain
    unfolding decodeXTermCSIFunctionKeys_def Let_def
    by (auto simp: js_ge_def js_le_def js_gt_def js_lt_def js_sub_def)
  moreover have "csiNumberedFunctionKeys buffer =
     (if x = Char_1n
        then MaybeMultiple
               (keyEvent (str ''f'' @ toString (Some (if d - 48 > 5 then d - 48 - 1 else d - 48)))
                  False False False False) 5
      else if x = Char_2n
        then MaybeMultiple
               (keyEvent (str ''f'' @ toString (Some (if d - 48 + 9 > 10 then d - 48 + 9 - 1
                                                       else d - 48 + 9)))
                  False False False False) 5
      else Null)"
    using len unfolding csiNumberedFunctionKeys_def Let_def
    by (simp add: js_gt_def js_sub_def js_add_def)
  ultimately show ?thesis by simp
qed

text \<open>
  The two resolvers agree on the digits \<^verbatim>\<open>'1'\<close> to \<^verbatim>\<open>'8'\<close>; on \<^verbatim>\<open>'9'\<close>
  (bit 3 alone) only the keyboard module's sets meta.
\<close>

lemma earlier_resolver_agrees:
  fixes d :: byte
  assumes "49 \<le> uint d" and "uint d \<le> 56"
  shows "modifierKeypress k (Some (uint d)) = [modifierKeypress_decode_ts k (Some (uint d))]"
proof -
  from assms have "uint d - 49 \<in> {0, 1, 2, 3, 4, 5, 6, 7}" by auto
  then have "(uint d - 49) AND 8 = 0" by auto
  then show ?thesis
    by (simp add: modifierKeypress_def modifierKeypress_decode_ts_def keyPress_def keyEvent_def
          js_sub_def js_and_set_def Let_def)
qed

lemma earlier_resolver_differs:
  "modifierKeypress k (Some 57) =
     [\<lparr>key = k, shift = False, ctrl = False, alt = False, meta = True\<rparr>]"
  "modifierKeypress_decode_ts k (Some 57) =
     \<lparr>key = k, shift = False, ctrl = False, alt = False, meta = False\<rparr>"
  by (simp_all add: modifierKeypress_def modifierKeypress_decode_ts_def keyPress_def
        keyEvent_def js_sub_def js_and_set_def Let_def)

section \<open>Buffers of single-byte keys\<close>

text \<open>
  A byte below 0x80 other than ESC and Cancel is decoded by the legacy branch from that
  byte alone: it cannot start a meta or alt prefix, a CSI or SS3 sequence, or a
  multi-byte character.
\<close>

definition single_byte_key :: "byte \<Rightarrow> bool" where
  "single_byte_key b = (uint b < 0x80 \<and> uint b \<noteq> Char_ESC \<and> uint b \<noteq> Char_CANCEL)"

lemma decodeBuffer_empty: "decodeBuffer U [] = Inr None"
  by (simp add: decodeBuffer.simps dispatch_def decodeXTermUtf8Key_def at_def)

lemma single_byte_dispatch:
  assumes "single_byte_key b"
  shows "dispatch U (b # rest) = classifyCharByte U (b # rest) False False 0 (uint b)"
  using assms by (simp add: dispatch_def decodeXTermUtf8Key_def at_def single_byte_key_def)

lemma utf8_character_shape: "decodeUtf8Character U buffer m a s c \<noteq> MaybeMultiple e n"
  by (simp add: decodeUtf8Character_def Let_def)

lemma classify_independent:
  "classifyCharByte U buffer m a s c = MaybeMultiple e n
   \<Longrightarrow> classifyCharByte U buffer' m a s c = MaybeMultiple e n"
  by (auto simp: classifyCharByte_def utf8_character_shape split: if_splits)

lemma classify_utf8:
  "(\<exists>e n. classifyCharByte U buffer m a s c = MaybeMultiple e n)
   \<or> classifyCharByte U buffer m a s c = decodeUtf8Character U buffer m a s c"
  by (simp add: classifyCharByte_def)

lemma classify_cases:
  "(\<exists>e. \<forall>buffer. classifyCharByte U buffer False False 0 c = MaybeMultiple e 1)
   \<or> (\<forall>buffer. classifyCharByte U buffer False False 0 c
                  = decodeUtf8Character U buffer False False 0 c)"
proof (cases "\<exists>e n. classifyCharByte U [] False False 0 c = MaybeMultiple e n")
  case True
  then obtain e n where en: "classifyCharByte U [] False False 0 c = MaybeMultiple e n"
    by blast
  then have "n = 1" using classify_consumed [of U "[]" False False 0 c e n] by simp
  with en have "classifyCharByte U buffer False False 0 c = MaybeMultiple e 1" for buffer
    using classify_independent [of U "[]" False False 0 c e n buffer] by simp
  then show ?thesis by blast
next
  case False
  have "classifyCharByte U buffer False False 0 c
          = decodeUtf8Character U buffer False False 0 c" for buffer
    using classify_utf8 [of U buffer False False 0 c] False
      classify_independent [of U buffer False False 0 c _ _ "[]"]
    by blast
  then show ?thesis by blast
qed

lemma utf8_character_ascii:
  assumes "0 \<le> c" and "c < 0x80"
  shows "decodeUtf8Character U (b # rest) False False 0 c =
     (let character = textDecoder_decode [b];
          e = keyEvent character
                (toUpperCase U character = character \<and> toLowerCase U character \<noteq> character)
                False False False
      in if rest = [] then Event e else PushDecoded e 1)"
proof -
  have "c AND 0xf0 \<le> c" "c AND 0xe0 \<le> c" "c AND 0xc0 \<le> c"
    using assms by (simp_all add: AND_upper1)
  with assms have "c AND 0xf0 \<noteq> 0xf0" "c AND 0xe0 \<noteq> 0xe0" "c AND 0xc0 \<noteq> 0xc0"
    by linarith+
  then show ?thesis
    by (cases rest) (simp_all add: decodeUtf8Character_def slice_def Let_def)
qed

lemma single_byte_head:
  assumes "single_byte_key b"
  shows "\<exists>e. decodeBuffer U [b] = Inr (Some e)
            \<and> (\<forall>rest E. decodeBuffer U rest = Inr (Some E)
                  \<longrightarrow> decodeBuffer U (b # rest) = Inr (Some (e @ E)))"
proof -
  note disp = single_byte_dispatch [OF assms]
  from classify_cases [of U "uint b"] show ?thesis
  proof
    assume "\<exists>e. \<forall>buffer. classifyCharByte U buffer False False 0 (uint b) = MaybeMultiple e 1"
    then obtain e where e: "\<And>buffer. classifyCharByte U buffer False False 0 (uint b) = MaybeMultiple e 1"
      by blast
    have "decodeBuffer U [b] = Inr (Some e)"
      by (simp add: decodeBuffer.simps disp e maybeMultiple.simps)
    moreover have "decodeBuffer U (b # rest) = Inr (Some (e @ E))"
      if "decodeBuffer U rest = Inr (Some E)" for rest E
    proof -
      from that have "rest \<noteq> []" using decodeBuffer_empty [of U] by auto
      with that show ?thesis
        by (simp add: decodeBuffer.simps [of U "b # rest"] disp e maybeMultiple.simps slice_from_def)
    qed
    ultimately show ?thesis by blast
  next
    assume u: "\<forall>buffer. classifyCharByte U buffer False False 0 (uint b)
                  = decodeUtf8Character U buffer False False 0 (uint b)"
    from assms have range: "0 \<le> uint b" "uint b < 0x80" by (simp_all add: single_byte_key_def)
    define character where "character = textDecoder_decode [b]"
    define e where "e = keyEvent character
                (toUpperCase U character = character \<and> toLowerCase U character \<noteq> character)
                False False False"
    have shape: "dispatch U (b # rest) = (if rest = [] then Event e else PushDecoded e 1)" for rest
      using utf8_character_ascii [OF range, of U b rest] u
      by (simp add: disp Let_def e_def character_def)
    have "decodeBuffer U [b] = Inr (Some e)"
      by (simp add: decodeBuffer.simps shape)
    moreover have "decodeBuffer U (b # rest) = Inr (Some (e @ E))"
      if "decodeBuffer U rest = Inr (Some E)" for rest E
    proof -
      from that have "rest \<noteq> []" using decodeBuffer_empty [of U] by auto
      with that show ?thesis
        by (simp add: decodeBuffer.simps [of U "b # rest"] shape slice_from_def)
    qed
    ultimately show ?thesis by blast
  qed
qed

lemma single_bytes_split:
  assumes "B1 \<noteq> []" and "\<forall>b \<in> set B1. single_byte_key b"
    and "decodeBuffer U B2 = Inr (Some E2)"
  shows "\<exists>E1. decodeBuffer U B1 = Inr (Some E1)
             \<and> decodeBuffer U (B1 @ B2) = Inr (Some (E1 @ E2))"
  using assms(1,2)
proof (induction B1 rule: list_nonempty_induct)
  case (single b)
  then have "single_byte_key b" by simp
  from single_byte_head [OF this, of U] assms(3) show ?case by auto
next
  case (cons b B1)
  then obtain E1 where E1: "decodeBuffer U B1 = Inr (Some E1)"
      "decodeBuffer U (B1 @ B2) = Inr (Some (E1 @ E2))"
    by auto
  from cons have "single_byte_key b" by simp
  from single_byte_head [OF this, of U] obtain e where
    e: "\<And>rest E. decodeBuffer U rest = Inr (Some E)
                  \<Longrightarrow> decodeBuffer U (b # rest) = Inr (Some (e @ E))"
    by blast
  from e [OF E1(1)] e [OF E1(2)] show ?case by simp
qed

section \<open>Splitting at the first boundary\<close>

text \<open>
  Where a decoder hands the same event and consumed length \<open>n\<close> to \<open>maybeMultiple\<close>
  on the buffer and on its first \<open>n\<close> bytes alone, and the rest decodes to a list, one
  call yields the event followed by that list. The SS3 sequence \<open>ESC 'O' 'M'\<close> is an
  instance before any decodable tail; \<open>single_bytes_split\<close> above is the same fact for
  a run of single-byte keys.
\<close>

lemma split_at_first_boundary:
  assumes whole: "dispatch U B = MaybeMultiple e n"
    and alone: "dispatch U (take n B) = MaybeMultiple e n"
    and rest: "decodeBuffer U (drop n B) = Inr (Some E2)"
  shows "decodeBuffer U (take n B) = Inr (Some e)
         \<and> decodeBuffer U B = Inr (Some (e @ E2))"
proof -
  from whole have n: "1 \<le> n \<and> n \<le> length B" by (rule dispatch_consumed)
  from rest have "drop n B \<noteq> []" using decodeBuffer_empty [of U] by auto
  then have "n \<noteq> length B" by auto
  with whole rest have "decodeBuffer U B = Inr (Some (e @ E2))"
    by (simp add: decodeBuffer.simps [of U B] maybeMultiple.simps slice_from_def)
  moreover from n have "length (take n B) = n" by simp
  with alone have "decodeBuffer U (take n B) = Inr (Some e)"
    by (simp add: decodeBuffer.simps [of U "take n B"] maybeMultiple.simps)
  ultimately show ?thesis by simp
qed

lemma split_after_ss3_return:
  assumes "decodeBuffer U B2 = Inr (Some E2)"
  shows "decodeBuffer U [27, 79, 77]
           = Inr (Some (keyEvent (str ''return'') True False False False))
         \<and> decodeBuffer U ([27, 79, 77] @ B2)
             = Inr (Some (keyEvent (str ''return'') True False False False @ E2))"
proof -
  have "dispatch U ([27, 79, 77] @ B2)
          = MaybeMultiple (keyEvent (str ''return'') True False False False) 3"
    by (simp add: dispatch_def decodeXTermSS3FunctionKeys_def at_def)
  moreover have "dispatch U (take 3 ([27, 79, 77] @ B2))
          = MaybeMultiple (keyEvent (str ''return'') True False False False) 3"
    by (simp add: dispatch_def decodeXTermSS3FunctionKeys_def at_def)
  ultimately show ?thesis
    using split_at_first_boundary [of U "[27, 79, 77] @ B2" _ 3 E2] assms by simp
qed

section \<open>The claims\<close>

text \<open>
  C2. Modifier resolver: for every key \<open>k\<close> and every byte \<open>d\<close>, in particular the
  digits \<^verbatim>\<open>'1'\<close> to \<^verbatim>\<open>'9'\<close>, \<open>modifierKeypress\<close> of the keyboard module computes
  \<open>numeric = d - '1'\<close> and returns the one event with the key unchanged, shift = bit 0,
  alt = bit 1, ctrl = bit 2 of \<open>numeric\<close>, and meta set when \<open>numeric\<close> is 0 or its
  bit 3 is set.
\<close>

theorem modifier_resolver:
  fixes d :: byte
  shows "let numeric = uint d - Char_1n
         in modifierKeypress k (Some (uint d)) =
              [\<lparr>key = k, shift = bit numeric 0, ctrl = bit numeric 2, alt = bit numeric 1,
                meta = (numeric = 0 \<or> bit numeric 3)\<rparr>]"
proof -
  have bit0: "\<And>v::int. (v AND 1 \<noteq> 0) = bit v 0"
    using and_power_of_two [of _ 0] by simp
  have bit1: "\<And>v::int. (v AND 2 \<noteq> 0) = bit v 1"
    using and_power_of_two [of _ 1] by simp
  have bit2: "\<And>v::int. (v AND 4 \<noteq> 0) = bit v 2"
    using and_power_of_two [of _ 2] by simp
  have bit3: "\<And>v::int. (v AND 8 \<noteq> 0) = bit v 3"
    using and_power_of_two [of _ 3] by simp
  show ?thesis
    by (simp add: modifierKeypress_def js_sub_def js_and_set_def keyEvent_def Let_def
          bit0 bit1 bit2 bit3)
qed

text \<open>
  C4. Control-byte collisions: \<open>decode [9]\<close> is the named key tab and \<open>decode [13]\<close>
  the named key return, both without ctrl; every other byte \<open>b\<close> in 1..26 except 8 and
  10 decodes to the lowercase letter with code \<open>b + 96\<close>, with ctrl set and no other
  modifier.
\<close>

theorem control_byte_collisions:
  fixes b :: byte
  shows "decodeBuffer U [9] =
           Inr (Some [\<lparr>key = str ''tab'', shift = False, ctrl = False, alt = False,
                       meta = False\<rparr>])
       \<and> decodeBuffer U [13] =
           Inr (Some [\<lparr>key = str ''return'', shift = False, ctrl = False, alt = False,
                       meta = False\<rparr>])
       \<and> (1 \<le> uint b \<and> uint b \<le> 26 \<and> uint b \<notin> {8, 9, 10, 13} \<longrightarrow>
            decodeBuffer U [b] =
              Inr (Some [\<lparr>key = [nat (uint b + 96)], shift = False, ctrl = True, alt = False,
                          meta = False\<rparr>]))"
proof (intro conjI impI)
  show "decodeBuffer U [9] =
           Inr (Some [\<lparr>key = str ''tab'', shift = False, ctrl = False, alt = False,
                       meta = False\<rparr>])"
    by (simp add: decodeBuffer.simps maybeMultiple.simps eval_defs)
  show "decodeBuffer U [13] =
           Inr (Some [\<lparr>key = str ''return'', shift = False, ctrl = False, alt = False,
                       meta = False\<rparr>])"
    by (simp add: decodeBuffer.simps maybeMultiple.simps eval_defs)
next
  assume "1 \<le> uint b \<and> uint b \<le> 26 \<and> uint b \<notin> {8, 9, 10, 13}"
  then show "decodeBuffer U [b] =
              Inr (Some [\<lparr>key = [nat (uint b + 96)], shift = False, ctrl = True, alt = False,
                          meta = False\<rparr>])"
    by (simp add: decodeBuffer.simps maybeMultiple.simps eval_defs)
qed

theorem control_byte_collisions_witness:
  "1 \<le> uint (1 :: byte) \<and> uint (1 :: byte) \<le> 26 \<and> uint (1 :: byte) \<notin> {8, 9, 10, 13}
   \<and> decodeBuffer ascii_case [1] =
       Inr (Some [\<lparr>key = str ''a'', shift = False, ctrl = True, alt = False, meta = False\<rparr>])"
  using control_byte_collisions [of ascii_case 1] by (simp add: str_def)

text \<open>
  C5. CSI modified arrow form: \<open>decode [ESC, '[', '1', ';', '5', 'A']\<close> is exactly one
  event, key up with ctrl and no other modifier. For every buffer that starts with
  \<open>ESC '['\<close> and has \<open>';'\<close> at index 3 and one of the terminators A, B, C, D, F, H
  at index 5, the CSI decoder maps the terminator to up, down, right, left, end, home,
  resolves the modifiers from the byte at index 4 and consumes 6 bytes. The two other
  letters of the range, E and G, are not mapped: the decoder returns null.
\<close>

theorem csi_modified_arrows:
  "decodeBuffer U [27, 91, 49, 59, 53, 65] =
     Inr (Some [\<lparr>key = str ''up'', shift = False, ctrl = True, alt = False, meta = False\<rparr>])
   \<and> (at buffer 0 = Some Char_ESC \<and> at buffer 1 = Some Char_lbracket
       \<and> at buffer 3 = Some Char_semicolon \<and> at buffer 5 = Some t
       \<and> (t, k) \<in> {(Char_A, ''up''), (Char_B, ''down''), (Char_C, ''right''),
                      (Char_D, ''left''), (Char_F, ''end''), (Char_H, ''home'')}
       \<longrightarrow> decodeXTermCSIFunctionKeys buffer =
             MaybeMultiple (modifierKeypress (str k) (at buffer 4)) 6
           \<and> decodeBuffer U buffer =
             maybeMultiple U (modifierKeypress (str k) (at buffer 4)) buffer 6)
   \<and> (at buffer 3 = Some Char_semicolon \<and> (at buffer 5 = Some 69 \<or> at buffer 5 = Some 71)
       \<longrightarrow> decodeXTermCSIFunctionKeys buffer = Null)"
proof (intro conjI impI)
  assume "at buffer 3 = Some Char_semicolon \<and> (at buffer 5 = Some 69 \<or> at buffer 5 = Some 71)"
  then show "decodeXTermCSIFunctionKeys buffer = Null"
    by (auto simp: decodeXTermCSIFunctionKeys_def csiCursorKeys_def js_ge_def js_le_def)
next
  show "decodeBuffer U [27, 91, 49, 59, 53, 65] =
     Inr (Some [\<lparr>key = str ''up'', shift = False, ctrl = True, alt = False, meta = False\<rparr>])"
    by (simp add: decodeBuffer.simps maybeMultiple.simps eval_defs)
next
  assume a: "at buffer 0 = Some Char_ESC \<and> at buffer 1 = Some Char_lbracket
       \<and> at buffer 3 = Some Char_semicolon \<and> at buffer 5 = Some t
       \<and> (t, k) \<in> {(Char_A, ''up''), (Char_B, ''down''), (Char_C, ''right''),
                      (Char_D, ''left''), (Char_F, ''end''), (Char_H, ''home'')}"
  from a have esc: "at buffer 0 = Some Char_ESC" by (elim conjE)
  from a have bracket: "at buffer 1 = Some Char_lbracket" by (elim conjE)
  from a have semicolon: "at buffer 3 = Some Char_semicolon" by (elim conjE)
  from a have terminator: "at buffer 5 = Some t" by (elim conjE)
  from a have mapped:
    "(t, k) \<in> {(Char_A, ''up''), (Char_B, ''down''), (Char_C, ''right''),
                (Char_D, ''left''), (Char_F, ''end''), (Char_H, ''home'')}"
    by (elim conjE)
  from semicolon terminator mapped
  show csi: "decodeXTermCSIFunctionKeys buffer =
             MaybeMultiple (modifierKeypress (str k) (at buffer 4)) 6"
    by (rule csi_modified_cursor)
  from bracket have "1 < length buffer" by (rule at_SomeD)
  with esc bracket have "dispatch U buffer = decodeXTermCSIFunctionKeys buffer"
    by (simp add: dispatch_def)
  with csi show "decodeBuffer U buffer =
             maybeMultiple U (modifierKeypress (str k) (at buffer 4)) buffer 6"
    by (simp add: decodeBuffer.simps)
qed

theorem csi_modified_arrows_witness:
  "at [27, 91, 49, 59, 50, 68, 97] 0 = Some Char_ESC
   \<and> at [27, 91, 49, 59, 50, 68, 97] 1 = Some Char_lbracket
   \<and> at [27, 91, 49, 59, 50, 68, 97] 3 = Some Char_semicolon
   \<and> at [27, 91, 49, 59, 50, 68, 97] 5 = Some Char_D
   \<and> decodeXTermCSIFunctionKeys [27, 91, 49, 59, 50, 68, 97] =
       MaybeMultiple
         [\<lparr>key = str ''left'', shift = True, ctrl = False, alt = False, meta = False\<rparr>] 6
   \<and> decodeBuffer ascii_case [27, 91, 49, 59, 50, 68, 97] =
       maybeMultiple ascii_case
         [\<lparr>key = str ''left'', shift = True, ctrl = False, alt = False, meta = False\<rparr>]
         [27, 91, 49, 59, 50, 68, 97] 6"
  using csi_modified_arrows [of ascii_case "[27, 91, 49, 59, 50, 68, 97]" Char_D "''left''"]
  by (simp add: at_def modifierKeypress_def js_sub_def js_and_set_def keyEvent_def str_def)

text \<open>
  C6 (the code at the failing input). The irregular F5 to F12 scheme: \<open>ESC '[' '1' '7' '~'\<close>
  alone decodes to f6. When the same five bytes are followed by one of P to S, here
  \<open>ESC '[' '1' '7' '~' 'P'\<close> (F6, then shift+P), the decoder never reaches the numbered
  branch: the test for a modified F1 to F4 looks only at \<open>buffer[5] - 'O'\<close>, not at a
  \<open>';'\<close> at index 3, and comes first. The result is one event f1 whose modifiers are
  resolved from the tilde (126 - 49 = 77: shift, ctrl and meta), with consumed length 6,
  where the scheme gives f6 with consumed length 5, followed by \<open>'P'\<close>.
\<close>

theorem numbered_function_key_read_as_modified:
  "decodeXTermCSIFunctionKeys [27, 91, 49, 55, 126, 80] =
     MaybeMultiple
       [\<lparr>key = str ''f1'', shift = True, ctrl = True, alt = False, meta = True\<rparr>] 6
   \<and> decodeBuffer U [27, 91, 49, 55, 126, 80] =
     Inr (Some [\<lparr>key = str ''f1'', shift = True, ctrl = True, alt = False, meta = True\<rparr>])
   \<and> decodeBuffer U [27, 91, 49, 55, 126] =
     Inr (Some [\<lparr>key = str ''f6'', shift = False, ctrl = False, alt = False, meta = False\<rparr>])
   \<and> decodeBuffer U [80] =
     Inr (Some [\<lparr>key = str ''P'', shift = True, ctrl = False, alt = False, meta = False\<rparr>])"
  by (simp add: decodeBuffer.simps maybeMultiple.simps eval_defs digits.simps)

text \<open>
  C10. Consumed-length bound: whenever one of the three decoders hands an event and a
  consumed length \<open>n\<close> to \<open>maybeMultiple\<close>, \<open>n\<close> is at least 1 and at most the length
  of the buffer, and whenever the UTF-8 branch decodes the tail itself, \<open>n\<close> is at
  least 1 and less than the length of the buffer; in both cases the tail
  \<open>buffer.slice(n)\<close> is strictly shorter than the buffer. This is the measure by which
  \<open>decodeBuffer\<close> and \<open>maybeMultiple\<close> terminate.
\<close>

theorem consumed_length_bounds:
  "r \<in> {decodeXTermUtf8Key U buffer, decodeXTermSS3FunctionKeys buffer,
        decodeXTermCSIFunctionKeys buffer}
   \<Longrightarrow> (r = MaybeMultiple e n \<longrightarrow>
          1 \<le> n \<and> n \<le> length buffer \<and> length (slice_from buffer n) < length buffer)
     \<and> (r = PushDecoded e n \<longrightarrow>
          1 \<le> n \<and> n < length buffer \<and> length (slice_from buffer n) < length buffer)"
proof (intro conjI impI)
  assume r: "r \<in> {decodeXTermUtf8Key U buffer, decodeXTermSS3FunctionKeys buffer,
        decodeXTermCSIFunctionKeys buffer}"
  {
    assume "r = MaybeMultiple e n"
    with r have bounds: "1 \<le> n \<and> n \<le> length buffer"
      using utf8_consumed [of U buffer e n] ss3_consumed [of buffer e n]
        csi_consumed [of buffer e n]
      by auto
    then show "1 \<le> n" and "n \<le> length buffer" by simp_all
    from bounds show "length (slice_from buffer n) < length buffer"
      by (simp add: slice_from_def) arith
  }
  {
    assume "r = PushDecoded e n"
    with r have bounds: "1 \<le> n \<and> n < length buffer"
      using utf8_pushed [of U buffer e n] ss3_shape [of buffer] csi_shape [of buffer]
      by auto
    then show "1 \<le> n" and "n < length buffer" by simp_all
    from bounds show "length (slice_from buffer n) < length buffer"
      by (simp add: slice_from_def) arith
  }
qed

theorem consumed_length_bounds_witness:
  "decodeXTermUtf8Key ascii_case [97, 98] =
     MaybeMultiple (keyEvent (str ''a'') False False False False) 1
   \<and> (1::nat) \<le> 1 \<and> 1 \<le> length [97, 98 :: byte]
   \<and> length (slice_from [97, 98 :: byte] 1) < length [97, 98 :: byte]"
proof -
  have r: "decodeXTermUtf8Key ascii_case [97, 98] =
     MaybeMultiple (keyEvent (str ''a'') False False False False) 1"
    by (simp add: eval_defs)
  show ?thesis
    using r consumed_length_bounds [of "decodeXTermUtf8Key ascii_case [97, 98]" ascii_case
        "[97, 98]" "keyEvent (str ''a'') False False False False" 1]
    by simp
qed

text \<open>
  C1 (the code at the failing input). Splitting at a sub-sequence boundary: the buffer
  \<open>ESC '[' 'A' ';' '2' 'Z'\<close> (up, then \<open>';'\<close>, \<open>'2'\<close>, \<open>'Z'\<close>). The cursor
  branch is entered on \<open>buffer[2] = 'A'\<close>, but because \<open>buffer[3]\<close> is \<open>';'\<close> it
  reads its terminator at index 5, finds \<open>'Z'\<close> and returns shift+tab with consumed
  length 3. One call yields shift+tab, \<open>';'\<close>, \<open>'2'\<close>, \<open>'Z'\<close>, so 3 is a
  sub-sequence boundary; the first 3 bytes alone decode to up and the rest to \<open>';'\<close>,
  \<open>'2'\<close>, \<open>'Z'\<close>. The concatenation of the two lists is not the list of the single
  call: the first event was chosen from bytes beyond its own consumed length.
\<close>

theorem splitting_fails_after_cursor_key:
  "dispatch ascii_case [27, 91, 65, 59, 50, 90] =
     MaybeMultiple (keyEvent (str ''tab'') True False False False) 3
   \<and> decodeBuffer ascii_case [27, 91, 65, 59, 50, 90] =
     Inr (Some (keyEvent (str ''tab'') True False False False
                @ keyEvent (str '';'') False False False False
                @ keyEvent (str ''2'') False False False False
                @ keyEvent (str ''Z'') True False False False))
   \<and> decodeBuffer ascii_case (take 3 [27, 91, 65, 59, 50, 90]) =
     Inr (Some (keyEvent (str ''up'') False False False False))
   \<and> decodeBuffer ascii_case (drop 3 [27, 91, 65, 59, 50, 90]) =
     Inr (Some (keyEvent (str '';'') False False False False
                @ keyEvent (str ''2'') False False False False
                @ keyEvent (str ''Z'') True False False False))
   \<and> keyEvent (str ''tab'') True False False False
         @ keyEvent (str '';'') False False False False
         @ keyEvent (str ''2'') False False False False
         @ keyEvent (str ''Z'') True False False False
       \<noteq> keyEvent (str ''up'') False False False False
         @ (keyEvent (str '';'') False False False False
            @ keyEvent (str ''2'') False False False False
            @ keyEvent (str ''Z'') True False False False)"
  by (simp add: decodeBuffer.simps maybeMultiple.simps eval_defs)

text \<open>
  C3 (the code at the failing input). The UTF-8 branch behind an alt prefix: the
  function's own example \<open>ESC 0xC4 0x85\<close> (alt with the letter U+0105) has
  \<open>startPos = 1\<close> and required length 2. The key it returns is decoded from the whole
  buffer, prefix included: the two code points 27 and U+0105, where the two bytes from
  \<open>startPos\<close> decode to U+0105 alone. The cut buffer \<open>ESC 0xC4\<close>, which is shorter
  than \<open>startPos + 2\<close>, is not answered with null: it returns an event whose key is 27
  followed by U+FFFD.
\<close>

theorem utf8_branch_decodes_the_prefix:
  "decodeXTermUtf8Key U [0x1B, 0xC4, 0x85] =
     Event (keyEvent [27, 0x105]
              (toUpperCase U [27, 0x105] = [27, 0x105] \<and> toLowerCase U [27, 0x105] \<noteq> [27, 0x105])
              False True False)
   \<and> textDecoder_decode (slice [0x1B, 0xC4, 0x85] 1 (1 + 2)) = [0x105]
   \<and> decodeXTermUtf8Key U [0x1B, 0xC4] =
     Event (keyEvent [27, 0xFFFD]
              (toUpperCase U [27, 0xFFFD] = [27, 0xFFFD]
               \<and> toLowerCase U [27, 0xFFFD] \<noteq> [27, 0xFFFD])
              False True False)"
  by (simp add: decodeXTermUtf8Key_def classifyCharByte_def decodeUtf8Character_def at_def
        slice_def utf8_defs Let_def)

text \<open>
  C7 (the code at the failing input). The meta prefix followed by a lone ESC: on the
  buffer \<open>Cancel '@' 's' ESC\<close> the decoder sets alt from \<open>buffer[3]\<close> without looking
  at the length, reads the character byte at index 4, which is past the end, and
  returns null: no escape event is produced.
\<close>

theorem meta_prefix_lone_escape_is_null:
  "decodeXTermUtf8Key U [24, 64, 115, 27] = Null
   \<and> decodeBuffer U [24, 64, 115, 27] = Inr None"
  by (simp add: decodeBuffer.simps maybeMultiple.simps eval_defs)

text \<open>
  C8 (the code at the failing input). The key vocabulary: the SS3 decoder does not
  bound the function-key number. \<open>ESC 'O' 'p'\<close> (keypad 0 in application mode)
  decodes to one event whose key is the string f33, which is neither a single
  character nor a named key.
\<close>

theorem ss3_key_outside_vocabulary:
  "decodeXTermSS3FunctionKeys [27, 79, 112] =
     MaybeMultiple (keyEvent (str ''f33'') False False False False) 3
   \<and> decodeBuffer U [27, 79, 112] =
     Inr (Some [\<lparr>key = str ''f33'', shift = False, ctrl = False, alt = False, meta = False\<rparr>])
   \<and> length (str ''f33'') \<noteq> 1
   \<and> str ''f33'' \<notin> str ` {''space'', ''return'', ''escape'', ''backspace'', ''tab'', ''up'',
         ''down'', ''left'', ''right'', ''home'', ''end'', ''insert'', ''delete'', ''pageup'',
         ''pagedown'', ''f1'', ''f2'', ''f3'', ''f4'', ''f5'', ''f6'', ''f7'', ''f8'', ''f9'',
         ''f10'', ''f11'', ''f12''}"
  by (simp add: decodeBuffer.simps maybeMultiple.simps eval_defs digits.simps)

text \<open>
  C9 (the code at the failing input). Totality: a two-byte character followed by the
  first byte of another one, \<open>0xC3 0xA9 0xC3\<close>. The UTF-8 branch takes the first
  character and spreads the decoding of the tail \<open>0xC3\<close> into \<^verbatim>\<open>push\<close>; the tail is
  a cut sequence, its decoding is null, and the spread throws a \<^verbatim>\<open>TypeError\<close>. The
  empty buffer does decode to null.
\<close>

theorem decode_throws_on_cut_tail:
  "decodeXTermUtf8Key U [0xC3, 0xA9, 0xC3] =
     PushDecoded (keyEvent [0xE9]
                    (toUpperCase U [0xE9] = [0xE9] \<and> toLowerCase U [0xE9] \<noteq> [0xE9])
                    False False False) 2
   \<and> decodeXTermUtf8Key U [0xC3] = Null
   \<and> decodeBuffer U [0xC3] = Inr None
   \<and> decodeBuffer U [0xC3, 0xA9, 0xC3] = Inl TypeError
   \<and> decodeBuffer U [] = Inr None"
  by (simp add: decodeBuffer.simps maybeMultiple.simps eval_defs utf8_defs)

end
